theory Spec2Isabelle
  imports Main
begin

unbundle bit_operations_syntax

section \<open>The spaced-repetition engine of compute\_srs.py\<close>

text \<open>
  The theory embeds \<^verbatim>\<open>src/compute_srs.py\<close>: the module-level configuration, the
  helpers \<^verbatim>\<open>_local_date_of_iso\<close>, \<^verbatim>\<open>_next_interval_days\<close>,
  \<^verbatim>\<open>_seed_offset_days\<close>, \<^verbatim>\<open>_calc_update\<close> and the driver \<^verbatim>\<open>run\<close>.
  Python names that start with an underscore lose it, since an Isabelle name cannot
  start with one.
\<close>

subsection \<open>Data\<close>

text \<open>
  A calendar date is represented by its day number, counted from 1 January 1970 in the
  proleptic Gregorian calendar. The source holds dates as the texts that
  \<^verbatim>\<open>strftime("%Y-%m-%d")\<close> prints.
\<close>

type_synonym date = int

text \<open>
  A puzzle identifier is a Python \<^verbatim>\<open>str\<close>: the list of its code points, which
  \<^verbatim>\<open>ord\<close> reads one by one. \<open>ascii\<close> gives the identifier that an ASCII literal
  denotes.
\<close>

type_synonym codepoints = "nat list"

definition ascii :: "string \<Rightarrow> codepoints" where
  "ascii s = map of_char s"

text \<open>
  The module-level constants, read once from the environment when the module is
  imported. The two tables come from \<^verbatim>\<open>_parse_cadence\<close>, which returns
  \<^verbatim>\<open>out or fallback\<close> with a non-empty literal fallback and keeps only parts that
  pass \<^verbatim>\<open>isdigit\<close>: no table of a loaded module is empty.
\<close>

record config =
  TRACK_WINS :: bool
  LOSS_CADENCE :: "int list"
  WIN_CADENCE :: "int list"
  RESET_ON_FAIL :: bool
  SEED_MODE :: string
  STAGGER_BUCKETS :: int

text \<open>The exceptions that can leave \<^verbatim>\<open>run\<close>.\<close>

datatype error = ValueError | AttributeError | IndexError | OverflowError

text \<open>
  A row of the table \<^verbatim>\<open>srs\<close> for user 1, keyed by the puzzle identifier in the
  store. \<^verbatim>\<open>success_streak\<close> may be NULL: the source reads it with \<^verbatim>\<open>or 0\<close>.
  \<^verbatim>\<open>due_date\<close> is NULL when SQLite's \<^verbatim>\<open>date\<close> gave NULL.
\<close>

record srs_entry =
  success_streak :: "int option"
  interval_days :: int
  srs_last_result :: string
  last_reviewed :: date
  due_date :: "date option"

type_synonym srs_store = "codepoints \<rightharpoonup> srs_entry"

text \<open>
  A row of \<^verbatim>\<open>SQL_LAST_ATTEMPT\<close>: one per puzzle with attempts, with the greatest
  \<^verbatim>\<open>attempted_at\<close> of the puzzle and the result of that attempt. Either column may
  be NULL.
\<close>

record last_row =
  puzzle_id :: codepoints
  last_attempt :: "string option"
  last_result :: "string option"

text \<open>The counters and the table as \<^verbatim>\<open>run\<close> carries them through its loop.\<close>

record run_state =
  srs :: srs_store
  updated :: nat
  deleted :: nat

text \<open>
  What one pass of the loop body does to the table. The source has no such type: it
  deletes, continues or upserts inline.
\<close>

datatype action = UPSERT srs_entry | DELETE | NOOP

subsection \<open>SQLite\<close>

text \<open>
  \<^verbatim>\<open>SELECT date(:base, :plus)\<close> with the modifier \<^verbatim>\<open>f"+{interval} day"\<close>. SQLite
  moves the date by that many calendar days and gives NULL
  \<^item> when the result is after 31 December 9999 (day 2932896);
  \<^item> when the interval is negative, since it does not read \<^verbatim>\<open>+-3 day\<close>;
  \<^item> when it does not read the base: \<^verbatim>\<open>strftime\<close> prints a year below 1000 with
    fewer than four digits, so the first base it reads is 1 January 1000 (day -354285).
\<close>

definition first_day :: date where
  "first_day = - 354285"

definition last_day :: date where
  "last_day = 2932896"

definition sqlite_date :: "date \<Rightarrow> int \<Rightarrow> date option" where
  "sqlite_date base n =
     (if first_day \<le> base \<and> 0 \<le> n \<and> base + n \<le> last_day then Some (base + n) else None)"

text \<open>
  An integer parameter of a statement must fit SQLite's signed 64-bit INTEGER: binding
  any other Python integer raises OverflowError.
\<close>

definition fits_int64 :: "int \<Rightarrow> bool" where
  "fits_int64 n = (- 9223372036854775808 \<le> n \<and> n \<le> 9223372036854775807)"

subsection \<open>Helpers\<close>

text \<open>Python's \<^verbatim>\<open>xs[i]\<close>: a negative index counts from the end, out of range raises.\<close>

definition getitem :: "'a list \<Rightarrow> int \<Rightarrow> error + 'a" where
  "getitem xs i =
     (if 0 \<le> i \<and> i < int (length xs) then Inr (xs ! nat i)
      else if i < 0 \<and> 0 \<le> int (length xs) + i then Inr (xs ! nat (int (length xs) + i))
      else Inl IndexError)"

text \<open>\<^verbatim>\<open>str.lower()\<close> on the ASCII letters; the characters of a result are bytes here.\<close>

definition lower_char :: "char \<Rightarrow> char" where
  "lower_char c =
     (case map_of (zip ''ABCDEFGHIJKLMNOPQRSTUVWXYZ'' ''abcdefghijklmnopqrstuvwxyz'') c of
        None \<Rightarrow> c
      | Some l \<Rightarrow> l)"

definition lower :: "string \<Rightarrow> string" where
  "lower s = map lower_char s"

text \<open>\<^verbatim>\<open>iso_ts.replace("Z", "+00:00")\<close>: every occurrence is replaced.\<close>

definition replace_Z :: "string \<Rightarrow> string" where
  "replace_Z s = concat (map (\<lambda>c. if c = CHR ''Z'' then ''+00:00'' else [c]) s)"

text \<open>
  \<^verbatim>\<open>_local_date_of_iso\<close>. The parameter \<open>fromiso\<close> stands for the library calls
  \<^verbatim>\<open>datetime.fromisoformat\<close>, \<^verbatim>\<open>astimezone()\<close> in the process's time zone and
  \<^verbatim>\<open>strftime("%Y-%m-%d")\<close>: it gives the local date of a text that parses and
  \<open>None\<close> where \<^verbatim>\<open>fromisoformat\<close> raises ValueError. A NULL timestamp has no
  \<^verbatim>\<open>replace\<close> and raises AttributeError.
\<close>

definition local_date_of_iso :: "(string \<Rightarrow> date option) \<Rightarrow> string option \<Rightarrow> error + date" where
  "local_date_of_iso fromiso iso_ts =
     (case iso_ts of
        None \<Rightarrow> Inl AttributeError
      | Some s \<Rightarrow> (case fromiso (replace_Z s) of None \<Rightarrow> Inl ValueError | Some d \<Rightarrow> Inr d))"

definition next_interval_days :: "config \<Rightarrow> int \<Rightarrow> bool \<Rightarrow> error + int" where
  "next_interval_days cfg streak for_win =
     (let cad = (if for_win \<and> TRACK_WINS cfg then WIN_CADENCE cfg else LOSS_CADENCE cfg);
          idx = min (max streak 1 - 1) (int (length cad) - 1)
      in getitem cad idx)"

text \<open>
  The loop of \<^verbatim>\<open>_seed_offset_days\<close> over the characters of the identifier; \<open>ch\<close> is
  the code point that \<^verbatim>\<open>ord(ch)\<close> gives.
\<close>

definition seed_base :: "codepoints \<Rightarrow> int" where
  "seed_base puzzle = foldl (\<lambda>base ch. (base * 131 + int ch) AND 0x7fffffff) 0 puzzle"

definition seed_offset_days :: "config \<Rightarrow> codepoints \<Rightarrow> int" where
  "seed_offset_days cfg puzzle =
     (if SEED_MODE cfg = ''stagger'' then
        (let r = seed_base puzzle mod max (STAGGER_BUCKETS cfg) 1 in if r = 0 then 1 else r)
      else 1)"

text \<open>
  \<^verbatim>\<open>_calc_update\<close> returns \<^verbatim>\<open>None\<close> or the tuple
  \<^verbatim>\<open>(streak, interval_days, base_date, plus_expr, for_win)\<close>. The fourth component is
  the number of days that the text \<^verbatim>\<open>f"+{interval} day"\<close> names.
\<close>

type_synonym update = "int \<times> int \<times> date \<times> int \<times> bool"

definition calc_update ::
  "config \<Rightarrow> srs_entry option \<Rightarrow> string \<Rightarrow> date \<Rightarrow> codepoints \<Rightarrow> error + update option" where
  "calc_update cfg existing result last_attempt_local_date puzzle =
     (let is_win = (result = ''win'') in
      case existing of
        Some e \<Rightarrow>
          (let streak0 = (case success_streak e of None \<Rightarrow> 0 | Some s \<Rightarrow> s) in
           if is_win \<and> \<not> TRACK_WINS cfg then Inr None
           else
             (let streak = (if is_win then streak0 + 1
                            else if RESET_ON_FAIL cfg then 0 else max (streak0 - 1) 0)
              in case next_interval_days cfg
                        (if is_win \<and> TRACK_WINS cfg then streak
                         else if is_win then 1
                         else if streak = 0 then 1 else streak)
                        is_win of
                   Inl err \<Rightarrow> Inl err
                 | Inr interval \<Rightarrow>
                     Inr (Some (streak, interval, last_attempt_local_date, interval, is_win))))
      | None \<Rightarrow>
          (if is_win \<and> \<not> TRACK_WINS cfg then Inr None
           else
             (let streak = (if is_win then 1 else 0 :: int)
              in case (if \<not> is_win then Inr (seed_offset_days cfg puzzle)
                       else next_interval_days cfg (if streak = 0 then 1 else streak) True) of
                   Inl err \<Rightarrow> Inl err
                 | Inr interval \<Rightarrow>
                     Inr (Some (streak, interval, last_attempt_local_date, interval, is_win)))))"

subsection \<open>The driver\<close>

text \<open>\<^verbatim>\<open>(r["last_result"] or "loss").lower()\<close>: NULL and the empty text count as a loss.\<close>

definition norm_result :: "string option \<Rightarrow> string" where
  "norm_result res = lower (case res of None \<Rightarrow> ''loss'' | Some s \<Rightarrow> if s = [] then ''loss'' else s)"

text \<open>
  The row that \<^verbatim>\<open>SQL_UPSERT_SRS\<close> is given from the tuple of \<^verbatim>\<open>_calc_update\<close>; the
  due date is what SQLite answers to \<^verbatim>\<open>date(:base, :plus)\<close> (lines 155 and 156).
\<close>

definition upsert_entry :: "string \<Rightarrow> update \<Rightarrow> srs_entry" where
  "upsert_entry result res =
     (case res of (streak, interval, base_date, plus_days, is_win) \<Rightarrow>
        \<lparr>success_streak = Some streak, interval_days = interval, srs_last_result = result,
         last_reviewed = base_date, due_date = sqlite_date base_date plus_days\<rparr>)"

text \<open>
  Lines 142 to 156 of the loop body, from the normalised result, the local date and the
  existing row to what is asked of the table.
\<close>

definition decide ::
  "config \<Rightarrow> srs_entry option \<Rightarrow> string \<Rightarrow> date \<Rightarrow> codepoints \<Rightarrow> error + action" where
  "decide cfg existing result last_attempt_date pid =
     (if result = ''win'' \<and> \<not> TRACK_WINS cfg then
        (if existing \<noteq> None then Inr DELETE else Inr NOOP)
      else
        (case calc_update cfg existing result last_attempt_date pid of
           Inl err \<Rightarrow> Inl err
         | Inr None \<Rightarrow> Inr NOOP
         | Inr (Some res) \<Rightarrow> Inr (UPSERT (upsert_entry result res))))"

text \<open>
  The statements on the table: \<^verbatim>\<open>SQL_DELETE_SRS\<close> with \<^verbatim>\<open>deleted += 1\<close>, and
  \<^verbatim>\<open>SQL_UPSERT_SRS\<close> (lines 158 to 166) with \<^verbatim>\<open>updated += 1\<close>. The upsert binds the
  streak and the interval as integers and raises OverflowError when one of them does
  not fit.
\<close>

definition apply_action :: "codepoints \<Rightarrow> action \<Rightarrow> run_state \<Rightarrow> error + run_state" where
  "apply_action pid a st =
     (case a of
        NOOP \<Rightarrow> Inr st
      | DELETE \<Rightarrow> Inr (st\<lparr>srs := (srs st)(pid := None), deleted := deleted st + 1\<rparr>)
      | UPSERT e \<Rightarrow>
          (if (case success_streak e of None \<Rightarrow> True | Some s \<Rightarrow> fits_int64 s) \<and>
              fits_int64 (interval_days e)
           then Inr (st\<lparr>srs := (srs st)(pid \<mapsto> e), updated := updated st + 1\<rparr>)
           else Inl OverflowError))"

text \<open>\<^verbatim>\<open>changed_pids is not None and pid not in changed_pids\<close> is the negation of this.\<close>

definition in_scope :: "codepoints list option \<Rightarrow> codepoints \<Rightarrow> bool" where
  "in_scope changed_pids pid = (case changed_pids of None \<Rightarrow> True | Some ps \<Rightarrow> pid \<in> set ps)"

text \<open>One pass of the loop body; \<open>Inl\<close> is an exception leaving the loop.\<close>

definition step ::
  "config \<Rightarrow> (string \<Rightarrow> date option) \<Rightarrow> codepoints list option \<Rightarrow> last_row \<Rightarrow> run_state
     \<Rightarrow> error + run_state" where
  "step cfg fromiso changed_pids r st =
     (let pid = puzzle_id r in
      if \<not> in_scope changed_pids pid then Inr st
      else
        (let result = norm_result (last_result r) in
         case local_date_of_iso fromiso (last_attempt r) of
           Inl err \<Rightarrow> Inl err
         | Inr last_attempt_date \<Rightarrow>
             (case decide cfg (srs st pid) result last_attempt_date pid of
                Inl err \<Rightarrow> Inl err
              | Inr a \<Rightarrow> apply_action pid a st)))"

fun loop ::
  "config \<Rightarrow> (string \<Rightarrow> date option) \<Rightarrow> codepoints list option \<Rightarrow> last_row list \<Rightarrow> run_state
     \<Rightarrow> error + run_state" where
  "loop cfg fromiso changed_pids [] st = Inr st"
| "loop cfg fromiso changed_pids (r # rows) st =
     (case step cfg fromiso changed_pids r st of
        Inl err \<Rightarrow> Inl err
      | Inr st' \<Rightarrow> loop cfg fromiso changed_pids rows st')"

text \<open>
  \<^verbatim>\<open>run\<close> on the rows that \<^verbatim>\<open>SQL_LAST_ATTEMPT\<close> returns and the table \<^verbatim>\<open>srs\<close>. The
  loop runs inside \<^verbatim>\<open>with eng.begin()\<close>: an exception rolls the transaction back, so
  the table is the one before the run and nothing is printed; otherwise the writes are
  committed and the two counts are printed.
\<close>

definition run ::
  "config \<Rightarrow> (string \<Rightarrow> date option) \<Rightarrow> codepoints list option \<Rightarrow> last_row list \<Rightarrow> srs_store
     \<Rightarrow> srs_store \<times> (error + nat \<times> nat)" where
  "run cfg fromiso changed_pids rows table =
     (case loop cfg fromiso changed_pids rows \<lparr>srs = table, updated = 0, deleted = 0\<rparr> of
        Inl err \<Rightarrow> (table, Inl err)
      | Inr st \<Rightarrow> (srs st, Inr (updated st, deleted st)))"

subsection \<open>Concrete inputs\<close>

text \<open>The constants of the module when no environment variable is set.\<close>

definition default_config :: config where
  "default_config =
     \<lparr>TRACK_WINS = False, LOSS_CADENCE = [1, 2, 4, 7, 14, 30, 60, 90],
      WIN_CADENCE = [2, 4, 7, 14, 30, 60, 90], RESET_ON_FAIL = True,
      SEED_MODE = ''tomorrow'', STAGGER_BUCKETS = 7\<rparr>"

text \<open>The constants under \<^verbatim>\<open>SRS_LOSS_CADENCE=3000000\<close>: one positive entry.\<close>

definition far_config :: config where
  "far_config = default_config\<lparr>LOSS_CADENCE := [3000000]\<rparr>"

text \<open>
  What the library calls give in a process whose time zone is UTC, on the two texts used
  below: 1 January 2024 is day 19723 from 1 January 1970, and \<^verbatim>\<open>not-a-date\<close> does
  not parse.
\<close>

definition utc_fromiso :: "string \<Rightarrow> date option" where
  "utc_fromiso s = (if s = ''2024-01-01T10:00:00+00:00'' then Some 19723 else None)"

text \<open>
  An empty table \<^verbatim>\<open>srs\<close>, one that holds a row for puzzle \<^verbatim>\<open>ccccc\<close> and one
  that holds the same row for puzzle \<^verbatim>\<open>bbbbb\<close>.
\<close>

definition no_rows :: srs_store where
  "no_rows = Map.empty"

definition old_entry :: srs_entry where
  "old_entry =
     \<lparr>success_streak = Some 5, interval_days = 14, srs_last_result = ''loss'',
      last_reviewed = 19700, due_date = Some 19714\<rparr>"

definition one_row :: srs_store where
  "one_row = no_rows(ascii ''ccccc'' \<mapsto> old_entry)"

definition b_row :: srs_store where
  "b_row = no_rows(ascii ''bbbbb'' \<mapsto> old_entry)"

text \<open>Three rows of \<^verbatim>\<open>SQL_LAST_ATTEMPT\<close>: a timestamp that does not parse, a loss, a win.\<close>

definition bad_row :: last_row where
  "bad_row =
     \<lparr>puzzle_id = ascii ''aaaaa'', last_attempt = Some ''not-a-date'',
      last_result = Some ''loss''\<rparr>"

definition good_row :: last_row where
  "good_row =
     \<lparr>puzzle_id = ascii ''bbbbb'', last_attempt = Some ''2024-01-01T10:00:00Z'',
      last_result = Some ''loss''\<rparr>"

definition win_row :: last_row where
  "win_row =
     \<lparr>puzzle_id = ascii ''ccccc'', last_attempt = Some ''2024-01-01T10:00:00Z'',
      last_result = Some ''WIN''\<rparr>"

text \<open>The row that a first loss on 1 January 2024 seeds under the default constants.\<close>

definition seeded_entry :: srs_entry where
  "seeded_entry =
     \<lparr>success_streak = Some 0, interval_days = 1, srs_last_result = ''loss'',
      last_reviewed = 19723, due_date = Some 19724\<rparr>"

text \<open>
  The row that a loss on 1 January 2024 writes over an existing row under
  \<open>far_config\<close>: the interval is 3000000 days and the due date is NULL.\<close>

definition far_entry :: srs_entry where
  "far_entry =
     \<lparr>success_streak = Some 0, interval_days = 3000000, srs_last_result = ''loss'',
      last_reviewed = 19723, due_date = None\<rparr>"

subsection \<open>Notions used in the statements\<close>

text \<open>\<^verbatim>\<open>existing["success_streak"] or 0\<close>, as \<^verbatim>\<open>_calc_update\<close> reads the stored streak.\<close>

definition stored_streak :: "srs_entry \<Rightarrow> int" where
  "stored_streak e = (case success_streak e of None \<Rightarrow> 0 | Some s \<Rightarrow> s)"

text \<open>
  The invariant of a schedule row that the engine wrote: a positive interval, and the
  due date that SQLite gives for the review date and the interval.
\<close>

definition entry_ok :: "srs_entry \<Rightarrow> bool" where
  "entry_ok e =
     (1 \<le> interval_days e \<and> due_date e = sqlite_date (last_reviewed e) (interval_days e))"

section \<open>Basic facts\<close>

lemmas run_eval =
  run_def step_def in_scope_def norm_result_def lower_def lower_char_def
  local_date_of_iso_def replace_Z_def utc_fromiso_def decide_def calc_update_def
  seed_offset_days_def upsert_entry_def apply_action_def default_config_def far_config_def
  bad_row_def good_row_def win_row_def one_row_def b_row_def old_entry_def seeded_entry_def
  far_entry_def next_interval_days_def getitem_def sqlite_date_def first_day_def last_day_def
  fits_int64_def ascii_def Let_def

lemma no_rows_apply [simp]: "no_rows p = None"
  by (simp add: no_rows_def)

lemma sqlite_date_in_range:
  "first_day \<le> base \<Longrightarrow> 0 \<le> n \<Longrightarrow> base + n \<le> last_day \<Longrightarrow> sqlite_date base n = Some (base + n)"
  by (simp add: sqlite_date_def)

lemma sqlite_date_past_last_day: "last_day < base + n \<Longrightarrow> sqlite_date base n = None"
  by (simp add: sqlite_date_def)

lemma and_mask_range: "0 \<le> (x AND 2147483647) \<and> (x AND 2147483647) < (2147483648 :: int)"
proof -
  have "x AND 2147483647 \<le> (2147483647 :: int)" by (rule AND_upper2) simp
  moreover have "0 \<le> (x AND (2147483647 :: int))" by simp
  ultimately show ?thesis by simp
qed

lemma seed_base_range: "0 \<le> seed_base p \<and> seed_base p < 2147483648"
proof (cases p rule: rev_cases)
  case Nil
  then show ?thesis by (simp add: seed_base_def)
next
  case (snoc cs c)
  then show ?thesis using and_mask_range by (simp add: seed_base_def)
qed

lemma seed_base_nonneg: "0 \<le> seed_base p"
  using seed_base_range by blast

lemma seed_offset_days_pos: "1 \<le> seed_offset_days cfg p"
proof -
  define r where "r = seed_base p mod max (STAGGER_BUCKETS cfg) 1"
  have "0 \<le> r" by (simp add: r_def)
  moreover have "seed_offset_days cfg p =
      (if SEED_MODE cfg = ''stagger'' then (if r = 0 then 1 else r) else 1)"
    by (simp add: seed_offset_days_def Let_def r_def)
  ultimately show ?thesis by simp
qed

lemma seed_offset_days_fits: "fits_int64 (seed_offset_days cfg p)"
proof -
  define r where "r = seed_base p mod max (STAGGER_BUCKETS cfg) 1"
  have "0 \<le> r" by (simp add: r_def)
  moreover have "r \<le> seed_base p"
    unfolding r_def using seed_base_nonneg [of p] by (simp add: zmod_le_nonneg_dividend)
  moreover have "seed_base p < 2147483648" using seed_base_range by blast
  moreover have "seed_offset_days cfg p =
      (if SEED_MODE cfg = ''stagger'' then (if r = 0 then 1 else r) else 1)"
    by (simp add: seed_offset_days_def Let_def r_def)
  ultimately show ?thesis by (simp add: fits_int64_def)
qed

lemma getitem_in_range:
  "0 \<le> i \<Longrightarrow> i < int (length xs) \<Longrightarrow> getitem xs i = Inr (xs ! nat i)"
  by (simp add: getitem_def)

lemma getitem_mem: "getitem xs i = Inr x \<Longrightarrow> x \<in> set xs"
  by (auto simp: getitem_def split: if_splits)

lemma next_interval_days_nonempty:
  assumes "cad = (if for_win \<and> TRACK_WINS cfg then WIN_CADENCE cfg else LOSS_CADENCE cfg)"
    and "cad \<noteq> []"
  shows "next_interval_days cfg streak for_win =
           Inr (cad ! nat (min (max streak 1 - 1) (int (length cad) - 1)))"
proof -
  let ?i = "min (max streak 1 - 1) (int (length cad) - 1)"
  from assms(2) have "0 < int (length cad)" by simp
  then have "0 \<le> ?i" "?i < int (length cad)" by auto
  then have "getitem cad ?i = Inr (cad ! nat ?i)" by (rule getitem_in_range)
  with assms(1) show ?thesis by (simp add: next_interval_days_def Let_def)
qed

lemma next_interval_days_mem:
  "next_interval_days cfg s w = Inr i \<Longrightarrow> i \<in> set (WIN_CADENCE cfg) \<union> set (LOSS_CADENCE cfg)"
  by (auto simp: next_interval_days_def Let_def dest: getitem_mem split: if_splits)

lemma next_interval_days_loss_mem:
  "next_interval_days cfg s False = Inr i \<Longrightarrow> i \<in> set (LOSS_CADENCE cfg)"
  by (auto simp: next_interval_days_def Let_def dest: getitem_mem)

lemma next_interval_days_Inr_nonempty:
  "next_interval_days cfg s False = Inr i \<Longrightarrow> LOSS_CADENCE cfg \<noteq> []"
  by (auto simp: next_interval_days_def getitem_def Let_def split: if_splits)

lemma next_interval_days_loss_1:
  "LOSS_CADENCE cfg \<noteq> [] \<Longrightarrow> next_interval_days cfg 1 False = Inr (hd (LOSS_CADENCE cfg))"
  using next_interval_days_nonempty [of "LOSS_CADENCE cfg" False cfg 1]
  by (simp add: hd_conv_nth)

lemma norm_result_None: "norm_result None = ''loss''"
  by (simp add: norm_result_def lower_def lower_char_def)

lemma norm_result_loss: "norm_result (Some ''loss'') = ''loss''"
  by (simp add: norm_result_def lower_def lower_char_def)

subsection \<open>The decision on a loss and on a win\<close>

lemma calc_update_loss_existing:
  assumes "result \<noteq> ''win''"
    and "ns = (if RESET_ON_FAIL cfg then 0 else max (stored_streak e - 1) 0)"
    and "next_interval_days cfg (max ns 1) False = Inr i"
  shows "calc_update cfg (Some e) result d pid = Inr (Some (ns, i, d, i, False))"
proof -
  have m: "(if max (stored_streak e - 1) 0 = 0 then 1 else max (stored_streak e - 1) 0)
          = max (max (stored_streak e - 1) 0) 1" by simp
  have "calc_update cfg (Some e) result d pid =
     (let ns = (if RESET_ON_FAIL cfg then 0 else max (stored_streak e - 1) 0) in
      case next_interval_days cfg (max ns 1) False of
        Inl err \<Rightarrow> Inl err
      | Inr i \<Rightarrow> Inr (Some (ns, i, d, i, False)))"
    using assms(1) m
    by (simp add: calc_update_def Let_def stored_streak_def split: sum.splits)
  with assms(3) show ?thesis unfolding assms(2) by (simp add: Let_def)
qed

lemma decide_loss_existing:
  assumes "result \<noteq> ''win''"
  shows "decide cfg (Some e) result d pid =
     (let ns = (if RESET_ON_FAIL cfg then 0 else max (stored_streak e - 1) 0) in
      case next_interval_days cfg (max ns 1) False of
        Inl err \<Rightarrow> Inl err
      | Inr i \<Rightarrow> Inr (UPSERT \<lparr>success_streak = Some ns, interval_days = i,
                        srs_last_result = result, last_reviewed = d,
                        due_date = sqlite_date d i\<rparr>))"
proof -
  have "(if max (stored_streak e - 1) 0 = 0 then 1 else max (stored_streak e - 1) 0)
          = max (max (stored_streak e - 1) 0) 1" by simp
  then show ?thesis
    using assms
    by (simp add: decide_def calc_update_def upsert_entry_def Let_def stored_streak_def
        split: sum.splits)
qed

lemma decide_loss_existing_Inr:
  assumes "result \<noteq> ''win''"
    and "ns = (if RESET_ON_FAIL cfg then 0 else max (stored_streak e - 1) 0)"
    and "next_interval_days cfg (max ns 1) False = Inr i"
  shows "decide cfg (Some e) result d pid =
     Inr (UPSERT \<lparr>success_streak = Some ns, interval_days = i,
                        srs_last_result = result, last_reviewed = d,
                        due_date = sqlite_date d i\<rparr>)"
  using assms(3) unfolding assms(2) by (simp add: decide_loss_existing [OF assms(1)] Let_def)

lemma decide_loss_new:
  assumes "result \<noteq> ''win''"
  shows "decide cfg None result d pid =
     Inr (UPSERT \<lparr>success_streak = Some 0, interval_days = seed_offset_days cfg pid,
                        srs_last_result = result, last_reviewed = d,
                        due_date = sqlite_date d (seed_offset_days cfg pid)\<rparr>)"
  using assms by (simp add: decide_def calc_update_def upsert_entry_def)

lemma decide_win_streak:
  assumes "decide cfg existing ''win'' d pid = Inr (UPSERT E)"
  shows "TRACK_WINS cfg \<and>
    success_streak E = Some (case existing of None \<Rightarrow> 1 | Some e \<Rightarrow> stored_streak e + 1)"
  using assms
  by (auto simp: decide_def calc_update_def upsert_entry_def Let_def stored_streak_def
      split: if_splits option.splits sum.splits)

subsection \<open>The statements on the table\<close>

lemma apply_action_srs:
  assumes "apply_action pid a st = Inr st'"
  shows "srs st' p =
     (if p = pid then (case a of NOOP \<Rightarrow> srs st pid | DELETE \<Rightarrow> None | UPSERT e \<Rightarrow> Some e)
      else srs st p)"
  using assms by (cases a) (auto simp: apply_action_def split: if_splits)

lemma apply_action_other_state:
  assumes "apply_action pid a st = Inr st'"
  shows "\<exists>st2'. apply_action pid a st2 = Inr st2'"
  using assms by (cases a) (auto simp: apply_action_def split: if_splits)

lemma apply_action_upsert:
  assumes "fits_int64 s" and "fits_int64 (interval_days e)" and "success_streak e = Some s"
  shows "apply_action pid (UPSERT e) st =
           Inr (st\<lparr>srs := (srs st)(pid \<mapsto> e), updated := updated st + 1\<rparr>)"
  using assms by (simp add: apply_action_def)

lemma step_srs_cases:
  assumes "step cfg f ch r st = Inr st'"
  shows "st' = st \<or>
    (\<exists>d a. in_scope ch (puzzle_id r) \<and> local_date_of_iso f (last_attempt r) = Inr d \<and>
       decide cfg (srs st (puzzle_id r)) (norm_result (last_result r)) d (puzzle_id r) = Inr a \<and>
       apply_action (puzzle_id r) a st = Inr st')"
  using assms by (auto simp: step_def Let_def split: if_splits sum.splits)

section \<open>The claims\<close>

subsection \<open>Cadence lookup and seeding\<close>

text \<open>
  Claim C6. For a cadence table and a streak \<open>s\<close> strictly larger than the table's
  length, \<^verbatim>\<open>_next_interval_days\<close> returns what it returns for \<open>s = len(cadence)\<close>,
  namely the last entry of the table, and raises nothing. The table is the one the
  function selects (the win cadence for a tracked win, the loss cadence otherwise); it
  has a last entry, as every table that \<^verbatim>\<open>_parse_cadence\<close> returns has.
\<close>

theorem cadence_saturates:
  assumes "cad = (if for_win \<and> TRACK_WINS cfg then WIN_CADENCE cfg else LOSS_CADENCE cfg)"
    and "cad \<noteq> []"
    and "int (length cad) < s"
  shows "next_interval_days cfg s for_win = next_interval_days cfg (int (length cad)) for_win \<and>
         next_interval_days cfg s for_win = Inr (last cad)"
proof -
  from assms(2) have len: "0 < length cad" by simp
  have a: "nat (min (max s 1 - 1) (int (length cad) - 1)) = length cad - 1"
    using assms(3) len by auto
  have b: "nat (min (max (int (length cad)) 1 - 1) (int (length cad) - 1)) = length cad - 1"
    using len by auto
  show ?thesis
    using next_interval_days_nonempty [OF assms(1,2), of s]
      next_interval_days_nonempty [OF assms(1,2), of "int (length cad)"]
    by (simp only: a b last_conv_nth [OF assms(2)])
qed

theorem cadence_saturates_witness:
  "next_interval_days default_config 100 False = next_interval_days default_config 8 False \<and>
   next_interval_days default_config 100 False = Inr 90"
proof -
  have c: "[1, 2, 4, 7, 14, 30, 60, 90] =
      (if False \<and> TRACK_WINS default_config then WIN_CADENCE default_config
       else LOSS_CADENCE default_config)"
    by (simp add: default_config_def)
  have n: "[1, 2, 4, 7, 14, 30, 60, 90 :: int] \<noteq> []" by simp
  have l: "int (length [1, 2, 4, 7, 14, 30, 60, 90 :: int]) < 100" by simp
  from cadence_saturates [OF c n l] show ?thesis by auto
qed

text \<open>
  Claim C10. With \<^verbatim>\<open>SEED_MODE = "stagger"\<close> and \<open>b = STAGGER_BUCKETS\<close>: if \<open>b \<ge> 2\<close>
  the seed interval of every puzzle identifier lies between 1 and \<open>b - 1\<close>, so \<open>b\<close>
  itself is never produced; if \<open>b \<le> 1\<close> the seed interval is 1.
\<close>

theorem stagger_seed_range:
  assumes "SEED_MODE cfg = ''stagger''"
  shows "(2 \<le> STAGGER_BUCKETS cfg \<longrightarrow>
            1 \<le> seed_offset_days cfg p \<and> seed_offset_days cfg p \<le> STAGGER_BUCKETS cfg - 1) \<and>
         (STAGGER_BUCKETS cfg \<le> 1 \<longrightarrow> seed_offset_days cfg p = 1)"
proof -
  let ?b = "STAGGER_BUCKETS cfg"
  show ?thesis
  proof (intro conjI impI)
    assume b: "2 \<le> ?b"
    then have m: "max ?b 1 = ?b" by simp
    have r: "0 \<le> seed_base p mod ?b" "seed_base p mod ?b < ?b" using b by simp_all
    have eq: "seed_offset_days cfg p =
        (if seed_base p mod ?b = 0 then 1 else seed_base p mod ?b)"
      using assms by (simp add: seed_offset_days_def m Let_def)
    show "1 \<le> seed_offset_days cfg p" using r by (simp add: eq)
    show "seed_offset_days cfg p \<le> ?b - 1" using r b by (simp add: eq)
  next
    assume "?b \<le> 1"
    then have "max ?b 1 = 1" by simp
    then show "seed_offset_days cfg p = 1"
      using assms by (simp add: seed_offset_days_def Let_def)
  qed
qed

theorem stagger_seed_range_witness:
  "seed_offset_days (default_config\<lparr>SEED_MODE := ''stagger''\<rparr>) (ascii ''abcde'') = 3 \<and>
   1 \<le> seed_offset_days (default_config\<lparr>SEED_MODE := ''stagger''\<rparr>) (ascii ''abcde'') \<and>
   seed_offset_days (default_config\<lparr>SEED_MODE := ''stagger''\<rparr>) (ascii ''abcde'') \<le> 7 - 1 \<and>
   seed_offset_days (default_config\<lparr>SEED_MODE := ''stagger'', STAGGER_BUCKETS := 0\<rparr>)
     (ascii ''abcde'') = 1"
proof -
  let ?c7 = "default_config\<lparr>SEED_MODE := ''stagger''\<rparr>"
  let ?c0 = "default_config\<lparr>SEED_MODE := ''stagger'', STAGGER_BUCKETS := 0\<rparr>"
  have m7: "SEED_MODE ?c7 = ''stagger''" and b7: "2 \<le> STAGGER_BUCKETS ?c7"
    by (simp_all add: default_config_def)
  have m0: "SEED_MODE ?c0 = ''stagger''" and b0: "STAGGER_BUCKETS ?c0 \<le> 1"
    by (simp_all add: default_config_def)
  have v: "seed_offset_days ?c7 (ascii ''abcde'') = 3"
    by (simp add: seed_offset_days_def seed_base_def ascii_def default_config_def)
  from stagger_seed_range [OF m7, of "ascii ''abcde''"] b7
  have "1 \<le> seed_offset_days ?c7 (ascii ''abcde'')"
    and "seed_offset_days ?c7 (ascii ''abcde'') \<le> STAGGER_BUCKETS ?c7 - 1" by blast+
  moreover from stagger_seed_range [OF m0, of "ascii ''abcde''"] b0
  have "seed_offset_days ?c0 (ascii ''abcde'') = 1" by blast
  moreover have "STAGGER_BUCKETS ?c7 = 7" by (simp add: default_config_def)
  ultimately show ?thesis using v by simp
qed

subsection \<open>The decision function\<close>

text \<open>
  Claim C3. When the latest result is a win and \<^verbatim>\<open>TRACK_WINS\<close> is false: an existing
  row is deleted whatever streak and interval it holds, and without a row nothing
  happens, so no row is ever created for an untracked win (\<^verbatim>\<open>_calc_update\<close> returns
  \<^verbatim>\<open>None\<close> on such a win too). On the table, for a row in scope whose timestamp gives
  a date: the loop body removes the row and counts one deletion, or leaves the state as
  it is.
\<close>

theorem untracked_win_deletes:
  assumes "\<not> TRACK_WINS cfg"
  shows "decide cfg (Some e) ''win'' d pid = Inr DELETE \<and>
         decide cfg None ''win'' d pid = Inr NOOP \<and>
         calc_update cfg existing ''win'' d pid = Inr None \<and>
         (in_scope ch (puzzle_id r) \<longrightarrow> norm_result (last_result r) = ''win'' \<longrightarrow>
          local_date_of_iso f (last_attempt r) = Inr d \<longrightarrow>
            step cfg f ch r st =
              Inr (case srs st (puzzle_id r) of
                     None \<Rightarrow> st
                   | Some e' \<Rightarrow> st\<lparr>srs := (srs st)(puzzle_id r := None),
                                   deleted := deleted st + 1\<rparr>))"
  using assms
  by (auto simp: decide_def calc_update_def step_def apply_action_def Let_def
      split: option.splits)

theorem untracked_win_deletes_witness:
  "\<not> TRACK_WINS default_config \<and>
   decide default_config (Some old_entry) ''win'' 19723 (ascii ''ccccc'') = Inr DELETE \<and>
   decide default_config None ''win'' 19723 (ascii ''ccccc'') = Inr NOOP \<and>
   in_scope None (puzzle_id win_row) \<and> norm_result (last_result win_row) = ''win'' \<and>
   local_date_of_iso utc_fromiso (last_attempt win_row) = Inr 19723 \<and>
   step default_config utc_fromiso None win_row \<lparr>srs = one_row, updated = 0, deleted = 0\<rparr> =
     Inr \<lparr>srs = one_row(ascii ''ccccc'' := None), updated = 0, deleted = 1\<rparr>"
proof -
  have t: "\<not> TRACK_WINS default_config" by (simp add: default_config_def)
  have i: "in_scope None (puzzle_id win_row)" by (simp add: in_scope_def)
  have n: "norm_result (last_result win_row) = ''win''"
    by (simp add: win_row_def norm_result_def lower_def lower_char_def)
  have p: "local_date_of_iso utc_fromiso (last_attempt win_row) = Inr 19723"
    by (simp add: win_row_def local_date_of_iso_def replace_Z_def utc_fromiso_def)
  have pid: "puzzle_id win_row = ascii ''ccccc''" by (simp add: win_row_def)
  have o: "srs \<lparr>srs = one_row, updated = 0, deleted = 0\<rparr> (puzzle_id win_row) = Some old_entry"
    by (simp add: one_row_def pid)
  from untracked_win_deletes [OF t, of old_entry 19723 "ascii ''ccccc''" None None win_row
      utc_fromiso "\<lparr>srs = one_row, updated = 0, deleted = 0\<rparr>"] i n p o
  show ?thesis by (simp add: t pid)
qed

text \<open>
  Claim C4. For a puzzle without a row whose latest result is a loss (in the source:
  any result other than \<^verbatim>\<open>win\<close>), with \<^verbatim>\<open>SEED_MODE = "tomorrow"\<close>: the new row has
  streak 0, interval 1 and the due date that SQLite gives for \<^verbatim>\<open>last_reviewed\<close> and
  \<^verbatim>\<open>+1 day\<close>, whatever the loss cadence \<open>lc\<close> holds. That due date is exactly one
  calendar day after \<^verbatim>\<open>last_reviewed\<close> for every attempt dated from 1 January 1000 to
  30 December 9999.
\<close>

theorem first_loss_tomorrow:
  assumes "SEED_MODE cfg = ''tomorrow''" and "result \<noteq> ''win''"
  shows "decide (cfg\<lparr>LOSS_CADENCE := lc\<rparr>) None result d pid =
           Inr (UPSERT \<lparr>success_streak = Some 0, interval_days = 1, srs_last_result = result,
                        last_reviewed = d, due_date = sqlite_date d 1\<rparr>) \<and>
         (first_day \<le> d \<longrightarrow> d < last_day \<longrightarrow>
            decide (cfg\<lparr>LOSS_CADENCE := lc\<rparr>) None result d pid =
              Inr (UPSERT \<lparr>success_streak = Some 0, interval_days = 1, srs_last_result = result,
                           last_reviewed = d, due_date = Some (d + 1)\<rparr>))"
  using assms
  by (simp add: decide_def calc_update_def seed_offset_days_def upsert_entry_def
      sqlite_date_def)

theorem first_loss_tomorrow_witness:
  "SEED_MODE default_config = ''tomorrow'' \<and> ''loss'' \<noteq> ''win'' \<and>
   first_day \<le> 19723 \<and> 19723 < last_day \<and>
   decide (default_config\<lparr>LOSS_CADENCE := [30, 60]\<rparr>) None ''loss'' 19723 (ascii ''abcde'') =
     Inr (UPSERT seeded_entry)"
proof -
  have m: "SEED_MODE default_config = ''tomorrow''" by (simp add: default_config_def)
  have l: "''loss'' \<noteq> ''win''" by simp
  have f: "first_day \<le> 19723" and t: "19723 < last_day"
    by (simp_all add: first_day_def last_day_def)
  from first_loss_tomorrow [OF m l, of "[30, 60]" 19723 "ascii ''abcde''"] f t
  have "decide (default_config\<lparr>LOSS_CADENCE := [30, 60]\<rparr>) None ''loss'' 19723 (ascii ''abcde'') =
     Inr (UPSERT \<lparr>success_streak = Some 0, interval_days = 1, srs_last_result = ''loss'',
                  last_reviewed = 19723, due_date = Some (19723 + 1)\<rparr>)"
    by blast
  with m l f t show ?thesis by (simp add: seeded_entry_def)
qed

text \<open>
  Claim C5. For an existing row with stored streak \<open>s\<close> whose latest result is a loss:
  the new streak is 0 if \<^verbatim>\<open>RESET_ON_FAIL\<close> and \<open>max (s - 1) 0\<close> otherwise; the new
  interval is the loss-cadence lookup at \<open>max new_streak 1\<close>, that is the entry of
  \<^verbatim>\<open>LOSS_CADENCE\<close> at index \<open>min (max new_streak 1 - 1) (len - 1)\<close>; the review date
  and the due date are recomputed from the attempt's local date \<open>d\<close>:
  \<^verbatim>\<open>_calc_update\<close> returns \<open>d\<close> as the base date and the interval as the number of
  days to add, and the row given to the upsert is reviewed on \<open>d\<close> and due on the date
  that SQLite gives for \<open>d\<close> and the interval. The upsert stores that row when the
  streak and the interval fit an SQLite integer.
\<close>

theorem loss_on_existing:
  assumes "result \<noteq> ''win''" and "LOSS_CADENCE cfg \<noteq> []"
  shows
    "(let s = stored_streak e;
          new_streak = (if RESET_ON_FAIL cfg then 0 else max (s - 1) 0);
          interval = LOSS_CADENCE cfg !
                       nat (min (max new_streak 1 - 1) (int (length (LOSS_CADENCE cfg)) - 1));
          row = \<lparr>success_streak = Some new_streak, interval_days = interval,
                 srs_last_result = result, last_reviewed = d,
                 due_date = sqlite_date d interval\<rparr>
      in next_interval_days cfg (max new_streak 1) False = Inr interval \<and>
         calc_update cfg (Some e) result d pid =
           Inr (Some (new_streak, interval, d, interval, False)) \<and>
         decide cfg (Some e) result d pid = Inr (UPSERT row) \<and>
         (fits_int64 new_streak \<longrightarrow> fits_int64 interval \<longrightarrow>
            apply_action pid (UPSERT row) st =
              Inr (st\<lparr>srs := (srs st)(pid \<mapsto> row), updated := updated st + 1\<rparr>)))"
proof -
  define ns where "ns = (if RESET_ON_FAIL cfg then 0 else max (stored_streak e - 1) 0)"
  define i where
    "i = LOSS_CADENCE cfg ! nat (min (max ns 1 - 1) (int (length (LOSS_CADENCE cfg)) - 1))"
  define row where
    "row = \<lparr>success_streak = Some ns, interval_days = i, srs_last_result = result,
            last_reviewed = d, due_date = sqlite_date d i\<rparr>"
  have ni: "next_interval_days cfg (max ns 1) False = Inr i"
    using next_interval_days_nonempty [of "LOSS_CADENCE cfg" False cfg "max ns 1"] assms(2)
    by (simp add: i_def)
  have cu: "calc_update cfg (Some e) result d pid = Inr (Some (ns, i, d, i, False))"
    by (rule calc_update_loss_existing [OF assms(1) ns_def ni])
  have de: "decide cfg (Some e) result d pid = Inr (UPSERT row)"
    unfolding row_def by (rule decide_loss_existing_Inr [OF assms(1) ns_def ni])
  have ap: "apply_action pid (UPSERT row) st =
              Inr (st\<lparr>srs := (srs st)(pid \<mapsto> row), updated := updated st + 1\<rparr>)"
    if "fits_int64 ns" and "fits_int64 i"
    using that by (intro apply_action_upsert [of ns]) (simp_all add: row_def)
  from ni cu de ap show ?thesis
    by (simp add: Let_def ns_def [symmetric] i_def [symmetric] row_def [symmetric])
qed

theorem loss_on_existing_witness:
  "''loss'' \<noteq> ''win'' \<and> LOSS_CADENCE default_config \<noteq> [] \<and>
   calc_update default_config (Some old_entry) ''loss'' 19723 (ascii ''ccccc'') =
     Inr (Some (0, 1, 19723, 1, False)) \<and>
   decide default_config (Some old_entry) ''loss'' 19723 (ascii ''ccccc'') =
     Inr (UPSERT \<lparr>success_streak = Some 0, interval_days = 1, srs_last_result = ''loss'',
                  last_reviewed = 19723, due_date = Some 19724\<rparr>) \<and>
   decide (default_config\<lparr>RESET_ON_FAIL := False\<rparr>) (Some old_entry) ''loss'' 19723
       (ascii ''ccccc'') =
     Inr (UPSERT \<lparr>success_streak = Some 4, interval_days = 7, srs_last_result = ''loss'',
                  last_reviewed = 19723, due_date = Some 19730\<rparr>)"
proof -
  have l: "''loss'' \<noteq> ''win''" by simp
  have n: "LOSS_CADENCE default_config \<noteq> []" by (simp add: default_config_def)
  have n': "LOSS_CADENCE (default_config\<lparr>RESET_ON_FAIL := False\<rparr>) \<noteq> []"
    by (simp add: default_config_def)
  from loss_on_existing [OF l n, of old_entry 19723 "ascii ''ccccc''"]
    loss_on_existing [OF l n', of old_entry 19723 "ascii ''ccccc''"] n
  show ?thesis
    by (simp add: Let_def stored_streak_def old_entry_def default_config_def
        sqlite_date_def first_day_def last_day_def)
qed

text \<open>
  Claim C9. A latest attempt whose result is NULL is handled exactly as one whose result
  is \<^verbatim>\<open>loss\<close>: the loop body gives the same outcome on both rows, the same state or
  the same exception. For a row in scope whose timestamp gives a date, whenever the
  decision on a loss is taken without an exception it is the upsert of a row stored with
  the result \<^verbatim>\<open>loss\<close>, never a no-op or a deletion, so the puzzle is not skipped. The
  decision and the upsert raise nothing when the loss cadence has an entry, every entry
  of it fits an SQLite integer and so does the streak of the existing row (as every
  integer read from the table does): the row is then written and counted.
\<close>

theorem null_result_is_loss:
  "step cfg f ch (r\<lparr>last_result := None\<rparr>) st = step cfg f ch (r\<lparr>last_result := Some ''loss''\<rparr>) st \<and>
   (in_scope ch (puzzle_id r) \<longrightarrow> local_date_of_iso f (last_attempt r) = Inr d \<longrightarrow>
      (decide cfg (srs st (puzzle_id r)) ''loss'' d (puzzle_id r) = Inr a \<longrightarrow>
         (\<exists>e. a = UPSERT e \<and> srs_last_result e = ''loss'' \<and> last_reviewed e = d \<and>
              step cfg f ch (r\<lparr>last_result := None\<rparr>) st = apply_action (puzzle_id r) (UPSERT e) st)) \<and>
      (LOSS_CADENCE cfg \<noteq> [] \<longrightarrow> (\<forall>x \<in> set (LOSS_CADENCE cfg). fits_int64 x) \<longrightarrow>
       (case srs st (puzzle_id r) of None \<Rightarrow> True | Some e0 \<Rightarrow> fits_int64 (stored_streak e0)) \<longrightarrow>
         (\<exists>e. decide cfg (srs st (puzzle_id r)) ''loss'' d (puzzle_id r) = Inr (UPSERT e) \<and>
              srs_last_result e = ''loss'' \<and>
              step cfg f ch (r\<lparr>last_result := None\<rparr>) st =
                Inr (st\<lparr>srs := (srs st)(puzzle_id r \<mapsto> e), updated := updated st + 1\<rparr>))))"
proof -
  let ?pid = "puzzle_id r"
  let ?null = "r\<lparr>last_result := None\<rparr>"
  have l: "''loss'' \<noteq> ''win''" by simp
  have same: "step cfg f ch ?null st = step cfg f ch (r\<lparr>last_result := Some ''loss''\<rparr>) st"
    by (simp add: step_def Let_def norm_result_None norm_result_loss)
  have stepped: "step cfg f ch ?null st = apply_action ?pid a' st"
    if "in_scope ch ?pid" and "local_date_of_iso f (last_attempt r) = Inr d"
      and "decide cfg (srs st ?pid) ''loss'' d ?pid = Inr a'" for a'
    using that by (simp add: step_def Let_def norm_result_None)
  have shape: "\<exists>e. a = UPSERT e \<and> srs_last_result e = ''loss'' \<and> last_reviewed e = d"
    if "decide cfg (srs st ?pid) ''loss'' d ?pid = Inr a"
  proof (cases "srs st ?pid")
    case None
    with that show ?thesis by (auto simp: decide_loss_new [OF l])
  next
    case (Some e0)
    with that show ?thesis
      by (auto simp: decide_loss_existing [OF l] Let_def split: sum.splits)
  qed
  have ok: "\<exists>e. decide cfg (srs st ?pid) ''loss'' d ?pid = Inr (UPSERT e) \<and>
              srs_last_result e = ''loss'' \<and>
              apply_action ?pid (UPSERT e) st =
                Inr (st\<lparr>srs := (srs st)(?pid \<mapsto> e), updated := updated st + 1\<rparr>)"
    if ne: "LOSS_CADENCE cfg \<noteq> []" and fits: "\<forall>x \<in> set (LOSS_CADENCE cfg). fits_int64 x"
      and old: "case srs st ?pid of None \<Rightarrow> True | Some e0 \<Rightarrow> fits_int64 (stored_streak e0)"
  proof (cases "srs st ?pid")
    case None
    let ?e = "\<lparr>success_streak = Some 0, interval_days = seed_offset_days cfg ?pid,
               srs_last_result = ''loss'', last_reviewed = d,
               due_date = sqlite_date d (seed_offset_days cfg ?pid)\<rparr>"
    have "decide cfg (srs st ?pid) ''loss'' d ?pid = Inr (UPSERT ?e)"
      using None by (simp add: decide_loss_new [OF l])
    moreover have "apply_action ?pid (UPSERT ?e) st =
        Inr (st\<lparr>srs := (srs st)(?pid \<mapsto> ?e), updated := updated st + 1\<rparr>)"
      by (rule apply_action_upsert [of 0])
        (simp_all add: fits_int64_def seed_offset_days_fits [unfolded fits_int64_def])
    ultimately show ?thesis by (intro exI [of _ ?e]) simp
  next
    case (Some e0)
    define ns where "ns = (if RESET_ON_FAIL cfg then 0 else max (stored_streak e0 - 1) 0)"
    from next_interval_days_nonempty [of "LOSS_CADENCE cfg" False cfg "max ns 1"] ne
    obtain i where i: "next_interval_days cfg (max ns 1) False = Inr i" by simp
    let ?e = "\<lparr>success_streak = Some ns, interval_days = i, srs_last_result = ''loss'',
               last_reviewed = d, due_date = sqlite_date d i\<rparr>"
    from next_interval_days_loss_mem [OF i] fits have fi: "fits_int64 i" by blast
    from old Some have "fits_int64 (stored_streak e0)" by simp
    then have fn: "fits_int64 ns" by (auto simp: ns_def fits_int64_def)
    have "decide cfg (srs st ?pid) ''loss'' d ?pid = Inr (UPSERT ?e)"
      using decide_loss_existing_Inr [OF l ns_def i] Some by simp
    moreover have "apply_action ?pid (UPSERT ?e) st =
        Inr (st\<lparr>srs := (srs st)(?pid \<mapsto> ?e), updated := updated st + 1\<rparr>)"
      by (rule apply_action_upsert [of ns]) (simp_all add: fn fi)
    ultimately show ?thesis by (intro exI [of _ ?e]) simp
  qed
  show ?thesis
  proof (intro conjI impI)
    show "step cfg f ch ?null st = step cfg f ch (r\<lparr>last_result := Some ''loss''\<rparr>) st"
      by (rule same)
  next
    assume sc: "in_scope ch ?pid" and dt: "local_date_of_iso f (last_attempt r) = Inr d"
      and de: "decide cfg (srs st ?pid) ''loss'' d ?pid = Inr a"
    from shape [OF de] obtain e where "a = UPSERT e" "srs_last_result e = ''loss''"
      "last_reviewed e = d" by blast
    with stepped [OF sc dt de]
    show "\<exists>e. a = UPSERT e \<and> srs_last_result e = ''loss'' \<and> last_reviewed e = d \<and>
              step cfg f ch ?null st = apply_action ?pid (UPSERT e) st"
      by blast
  next
    assume sc: "in_scope ch ?pid" and dt: "local_date_of_iso f (last_attempt r) = Inr d"
      and ne: "LOSS_CADENCE cfg \<noteq> []" and fits: "\<forall>x \<in> set (LOSS_CADENCE cfg). fits_int64 x"
      and old: "case srs st ?pid of None \<Rightarrow> True | Some e0 \<Rightarrow> fits_int64 (stored_streak e0)"
    from ok [OF ne fits old] obtain e where
      de: "decide cfg (srs st ?pid) ''loss'' d ?pid = Inr (UPSERT e)"
      and le: "srs_last_result e = ''loss''"
      and ap: "apply_action ?pid (UPSERT e) st =
                Inr (st\<lparr>srs := (srs st)(?pid \<mapsto> e), updated := updated st + 1\<rparr>)" by blast
    from stepped [OF sc dt de] ap de le
    show "\<exists>e. decide cfg (srs st ?pid) ''loss'' d ?pid = Inr (UPSERT e) \<and>
              srs_last_result e = ''loss'' \<and>
              step cfg f ch ?null st =
                Inr (st\<lparr>srs := (srs st)(?pid \<mapsto> e), updated := updated st + 1\<rparr>)"
      by auto
  qed
qed

theorem null_result_is_loss_witness:
  "in_scope None (puzzle_id good_row) \<and>
   local_date_of_iso utc_fromiso (last_attempt good_row) = Inr 19723 \<and>
   LOSS_CADENCE default_config \<noteq> [] \<and> list_all fits_int64 (LOSS_CADENCE default_config) \<and>
   fits_int64 (stored_streak old_entry) \<and>
   step default_config utc_fromiso None (good_row\<lparr>last_result := None\<rparr>)
       \<lparr>srs = b_row, updated = 0, deleted = 0\<rparr> =
     Inr \<lparr>srs = b_row(ascii ''bbbbb'' \<mapsto> seeded_entry), updated = 1, deleted = 0\<rparr> \<and>
   step default_config utc_fromiso None (good_row\<lparr>last_result := Some ''loss''\<rparr>)
       \<lparr>srs = b_row, updated = 0, deleted = 0\<rparr> =
     Inr \<lparr>srs = b_row(ascii ''bbbbb'' \<mapsto> seeded_entry), updated = 1, deleted = 0\<rparr>"
proof -
  let ?st = "\<lparr>srs = b_row, updated = 0, deleted = 0\<rparr>"
  have i: "in_scope None (puzzle_id good_row)" by (simp add: in_scope_def)
  have p: "local_date_of_iso utc_fromiso (last_attempt good_row) = Inr 19723"
    by (simp add: good_row_def local_date_of_iso_def replace_Z_def utc_fromiso_def)
  have n: "LOSS_CADENCE default_config \<noteq> []" by (simp add: default_config_def)
  have c: "\<forall>x \<in> set (LOSS_CADENCE default_config). fits_int64 x"
    by (simp add: default_config_def fits_int64_def)
  have pid: "puzzle_id good_row = ascii ''bbbbb''" by (simp add: good_row_def)
  have o: "srs ?st (puzzle_id good_row) = Some old_entry" by (simp add: pid b_row_def)
  have s: "fits_int64 (stored_streak old_entry)"
    by (simp add: stored_streak_def old_entry_def fits_int64_def)
  have d: "decide default_config (srs ?st (puzzle_id good_row)) ''loss'' 19723 (puzzle_id good_row)
             = Inr (UPSERT seeded_entry)"
    unfolding o by (simp add: run_eval)
  from null_result_is_loss [of default_config utc_fromiso None good_row ?st 19723
      "UPSERT seeded_entry"] i p n c o s d
  show ?thesis by (auto simp: pid list_all_iff)
qed

subsection \<open>The invariant of the rows\<close>

lemma calc_update_shape:
  assumes "calc_update cfg existing result d pid = Inr (Some (streak, interval, base, plus_days, w))"
  shows "base = d \<and> plus_days = interval \<and>
         (interval = seed_offset_days cfg pid \<or>
          interval \<in> set (WIN_CADENCE cfg) \<union> set (LOSS_CADENCE cfg))"
  using assms
  by (auto simp: calc_update_def Let_def split: option.splits if_splits sum.splits
      dest!: next_interval_days_mem)

lemma decide_entry_shape:
  assumes pos: "\<forall>x \<in> set (LOSS_CADENCE cfg). 1 \<le> x" "\<forall>x \<in> set (WIN_CADENCE cfg). 1 \<le> x"
    and d: "decide cfg existing result d pid = Inr (UPSERT e)"
  shows "1 \<le> interval_days e \<and> last_reviewed e = d \<and>
         due_date e = sqlite_date d (interval_days e)"
proof -
  from d obtain res where c: "calc_update cfg existing result d pid = Inr (Some res)"
    and e: "e = upsert_entry result res"
    by (auto simp: decide_def split: if_splits sum.splits option.splits)
  obtain streak interval base plus_days w where res: "res = (streak, interval, base, plus_days, w)"
    by (cases res) auto
  from calc_update_shape [OF c [unfolded res]]
  have "base = d" "plus_days = interval"
    "interval = seed_offset_days cfg pid \<or>
     interval \<in> set (WIN_CADENCE cfg) \<union> set (LOSS_CADENCE cfg)"
    by simp_all
  moreover from this(3) pos have "1 \<le> interval"
    using seed_offset_days_pos [of cfg pid] by auto
  ultimately show ?thesis by (simp add: e res upsert_entry_def)
qed

lemma decide_entry_ok:
  assumes "\<forall>x \<in> set (LOSS_CADENCE cfg). 1 \<le> x" and "\<forall>x \<in> set (WIN_CADENCE cfg). 1 \<le> x"
    and "decide cfg existing result d pid = Inr (UPSERT e)"
  shows "entry_ok e"
  using decide_entry_shape [OF assms] by (simp add: entry_ok_def)

lemma step_entry_ok:
  assumes pos: "\<forall>x \<in> set (LOSS_CADENCE cfg). 1 \<le> x" "\<forall>x \<in> set (WIN_CADENCE cfg). 1 \<le> x"
    and s: "step cfg f ch r st = Inr st'" and e: "srs st' p = Some e"
  shows "srs st p = Some e \<or> entry_ok e"
proof -
  from step_srs_cases [OF s] show ?thesis
  proof
    assume "st' = st" with e show ?thesis by simp
  next
    assume "\<exists>d a. in_scope ch (puzzle_id r) \<and> local_date_of_iso f (last_attempt r) = Inr d \<and>
       decide cfg (srs st (puzzle_id r)) (norm_result (last_result r)) d (puzzle_id r) = Inr a \<and>
       apply_action (puzzle_id r) a st = Inr st'"
    then obtain d a where
      dec: "decide cfg (srs st (puzzle_id r)) (norm_result (last_result r)) d (puzzle_id r) = Inr a"
      and st': "apply_action (puzzle_id r) a st = Inr st'" by blast
    note at = apply_action_srs [OF st', of p]
    show ?thesis
    proof (cases a)
      case (UPSERT e')
      with dec pos have "entry_ok e'" by (auto intro: decide_entry_ok)
      with e at UPSERT show ?thesis by (auto split: if_splits)
    next
      case DELETE
      with e at show ?thesis by (auto split: if_splits)
    next
      case NOOP
      with e at show ?thesis by (auto split: if_splits)
    qed
  qed
qed

lemma loop_entry_ok:
  assumes pos: "\<forall>x \<in> set (LOSS_CADENCE cfg). 1 \<le> x" "\<forall>x \<in> set (WIN_CADENCE cfg). 1 \<le> x"
  shows "loop cfg f ch rows st = Inr st' \<Longrightarrow> srs st' p = Some e \<Longrightarrow>
         srs st p = Some e \<or> entry_ok e"
proof (induction rows arbitrary: st)
  case Nil
  then show ?case by simp
next
  case (Cons r rows)
  from Cons.prems(1) obtain st1 where s1: "step cfg f ch r st = Inr st1"
    and l: "loop cfg f ch rows st1 = Inr st'"
    by (auto split: sum.splits)
  from Cons.IH [OF l Cons.prems(2)] have "srs st1 p = Some e \<or> entry_ok e" .
  then show ?case using step_entry_ok [OF pos s1] by blast
qed

text \<open>
  Claim C8 says that, with positive cadence entries and bucket count, every row the
  engine upserts has an interval of at least 1 and is due exactly that many calendar
  days after \<^verbatim>\<open>last_reviewed\<close>. The due date is what SQLite's \<^verbatim>\<open>date\<close> answers,
  and that is NULL once the date passes 31 December 9999: under
  \<^verbatim>\<open>SRS_LOSS_CADENCE=3000000\<close> a loss on 1 January 2024 over an existing row is
  upserted with the interval 3000000 and a NULL due date, and the run stores that row.
\<close>

theorem due_date_counterexample:
  "LOSS_CADENCE far_config = [3000000] \<and>
   WIN_CADENCE far_config = [2, 4, 7, 14, 30, 60, 90] \<and> STAGGER_BUCKETS far_config = 7 \<and>
   decide far_config (Some old_entry) ''loss'' 19723 (ascii ''bbbbb'') = Inr (UPSERT far_entry) \<and>
   run far_config utc_fromiso None [good_row] b_row =
     (b_row(ascii ''bbbbb'' \<mapsto> far_entry), Inr (1, 0)) \<and>
   interval_days far_entry = 3000000 \<and> last_reviewed far_entry = 19723 \<and>
   due_date far_entry = None"
  by (simp add: run_eval)

text \<open>
  Claim C8, amended. When every entry of both cadence tables is a positive integer, every
  row the engine upserts has an interval of at least 1, is reviewed on the attempt's
  local date and has the due date that SQLite gives for that date and the interval:
  \<^verbatim>\<open>last_reviewed\<close> advanced by exactly \<^verbatim>\<open>interval_days\<close> calendar days when
  \<^verbatim>\<open>last_reviewed\<close> is not before 1 January 1000 and the result is not after
  31 December 9999, and NULL when the result is after that day. A run keeps this
  invariant of the table: each row of the table after a run is a row the run left as it
  was or a row with the invariant, so a table whose rows all have it keeps it. (The seed
  interval is at least 1 for every bucket count, so nothing is asked of
  \<^verbatim>\<open>STAGGER_BUCKETS\<close>.)
\<close>

theorem upserted_entry_invariant:
  assumes "\<forall>x \<in> set (LOSS_CADENCE cfg). 1 \<le> x" and "\<forall>x \<in> set (WIN_CADENCE cfg). 1 \<le> x"
  shows "(decide cfg existing result d pid = Inr (UPSERT e) \<longrightarrow>
            1 \<le> interval_days e \<and> last_reviewed e = d \<and>
            due_date e = sqlite_date (last_reviewed e) (interval_days e) \<and>
            (first_day \<le> last_reviewed e \<longrightarrow> last_reviewed e + interval_days e \<le> last_day \<longrightarrow>
               due_date e = Some (last_reviewed e + interval_days e)) \<and>
            (last_day < last_reviewed e + interval_days e \<longrightarrow> due_date e = None)) \<and>
         (run cfg f ch rows table = (table', out) \<longrightarrow> table' p = Some e' \<longrightarrow>
            table p = Some e' \<or> entry_ok e') \<and>
         (run cfg f ch rows table = (table', out) \<longrightarrow>
            (\<forall>q x. table q = Some x \<longrightarrow> entry_ok x) \<longrightarrow>
            (\<forall>q x. table' q = Some x \<longrightarrow> entry_ok x))"
proof -
  have one: "table p = Some e' \<or> entry_ok e'"
    if r: "run cfg f ch rows table = (table', out)" and e: "table' p = Some e'" for p e'
  proof (cases "loop cfg f ch rows \<lparr>srs = table, updated = 0, deleted = 0\<rparr>")
    case (Inl err)
    with r e show ?thesis by (simp add: run_def)
  next
    case (Inr st)
    with r e have "srs st p = Some e'" by (auto simp: run_def)
    from loop_entry_ok [OF assms Inr this] show ?thesis by simp
  qed
  have "1 \<le> interval_days e \<and> last_reviewed e = d \<and>
            due_date e = sqlite_date (last_reviewed e) (interval_days e) \<and>
            (first_day \<le> last_reviewed e \<longrightarrow> last_reviewed e + interval_days e \<le> last_day \<longrightarrow>
               due_date e = Some (last_reviewed e + interval_days e)) \<and>
            (last_day < last_reviewed e + interval_days e \<longrightarrow> due_date e = None)"
    if de: "decide cfg existing result d pid = Inr (UPSERT e)"
  proof -
    from decide_entry_shape [OF assms de]
    have i: "1 \<le> interval_days e" and l: "last_reviewed e = d"
      and du: "due_date e = sqlite_date d (interval_days e)" by simp_all
    from i have "0 \<le> interval_days e" by simp
    then have "first_day \<le> d \<longrightarrow> d + interval_days e \<le> last_day \<longrightarrow>
        sqlite_date d (interval_days e) = Some (d + interval_days e)"
      by (simp add: sqlite_date_in_range)
    moreover have "last_day < d + interval_days e \<longrightarrow> sqlite_date d (interval_days e) = None"
      by (simp add: sqlite_date_past_last_day)
    ultimately show ?thesis using i l du by simp
  qed
  moreover have "run cfg f ch rows table = (table', out) \<longrightarrow> table' p = Some e' \<longrightarrow>
            table p = Some e' \<or> entry_ok e'"
    using one by blast
  moreover have "run cfg f ch rows table = (table', out) \<longrightarrow>
            (\<forall>q x. table q = Some x \<longrightarrow> entry_ok x) \<longrightarrow>
            (\<forall>q x. table' q = Some x \<longrightarrow> entry_ok x)"
    using one by blast
  ultimately show ?thesis by blast
qed

theorem upserted_entry_invariant_witness:
  "list_all (\<lambda>x. 1 \<le> x) (LOSS_CADENCE far_config) \<and>
   list_all (\<lambda>x. 1 \<le> x) (WIN_CADENCE far_config) \<and>
   decide far_config None ''loss'' 19723 (ascii ''bbbbb'') = Inr (UPSERT seeded_entry) \<and>
   decide far_config (Some old_entry) ''loss'' 19723 (ascii ''ccccc'') = Inr (UPSERT far_entry) \<and>
   first_day \<le> last_reviewed seeded_entry \<and>
   last_reviewed seeded_entry + interval_days seeded_entry \<le> last_day \<and>
   due_date seeded_entry = Some (last_reviewed seeded_entry + interval_days seeded_entry) \<and>
   last_day < last_reviewed far_entry + interval_days far_entry \<and>
   due_date far_entry = None \<and>
   run far_config utc_fromiso None [good_row, win_row] one_row =
     (no_rows(ascii ''ccccc'' \<mapsto> old_entry, ascii ''bbbbb'' \<mapsto> seeded_entry,
              ascii ''ccccc'' := None), Inr (1, 1)) \<and>
   entry_ok seeded_entry"
proof -
  let ?t = "no_rows(ascii ''ccccc'' \<mapsto> old_entry, ascii ''bbbbb'' \<mapsto> seeded_entry,
                   ascii ''ccccc'' := None)"
  have l: "\<forall>x \<in> set (LOSS_CADENCE far_config). 1 \<le> x"
    and w: "\<forall>x \<in> set (WIN_CADENCE far_config). 1 \<le> x"
    by (simp_all add: far_config_def default_config_def)
  have d1: "decide far_config None ''loss'' 19723 (ascii ''bbbbb'') = Inr (UPSERT seeded_entry)"
    by (simp add: run_eval)
  have d2: "decide far_config (Some old_entry) ''loss'' 19723 (ascii ''ccccc'') =
      Inr (UPSERT far_entry)"
    by (simp add: run_eval)
  have r: "run far_config utc_fromiso None [good_row, win_row] one_row = (?t, Inr (1, 1))"
    by (simp add: run_eval)
  have t: "?t (ascii ''bbbbb'') = Some seeded_entry" by (simp add: ascii_def)
  have o: "one_row (ascii ''bbbbb'') \<noteq> Some seeded_entry" by (simp add: one_row_def ascii_def)
  have b1: "first_day \<le> last_reviewed seeded_entry"
    "last_reviewed seeded_entry + interval_days seeded_entry \<le> last_day"
    by (simp_all add: seeded_entry_def first_day_def last_day_def)
  have b2: "last_day < last_reviewed far_entry + interval_days far_entry"
    by (simp add: far_entry_def last_day_def)
  from upserted_entry_invariant [OF l w, of None "''loss''" 19723 "ascii ''bbbbb''" seeded_entry
      utc_fromiso None "[good_row, win_row]" one_row ?t "Inr (1, 1)" "ascii ''bbbbb''"
      seeded_entry] d1 r t o b1
  have s: "due_date seeded_entry = Some (last_reviewed seeded_entry + interval_days seeded_entry)"
    and k: "entry_ok seeded_entry" by blast+
  from upserted_entry_invariant [OF l w, of "Some old_entry" "''loss''" 19723 "ascii ''ccccc''"
      far_entry] d2 b2
  have n: "due_date far_entry = None" by blast
  from l w d1 d2 r b1 b2 s k n show ?thesis by (simp add: list_all_iff)
qed

subsection \<open>A malformed timestamp\<close>

lemma step_bad_timestamp:
  "in_scope ch (puzzle_id r) \<Longrightarrow> local_date_of_iso f (last_attempt r) = Inl err \<Longrightarrow>
   step cfg f ch r st = Inl err"
  by (simp add: step_def)

lemma loop_bad_timestamp:
  assumes "r \<in> set rows" and "in_scope ch (puzzle_id r)"
    and "local_date_of_iso f (last_attempt r) = Inl err"
  shows "\<exists>err'. loop cfg f ch rows st = Inl err'"
  using assms(1)
proof (induction rows arbitrary: st)
  case Nil
  then show ?case by simp
next
  case (Cons x rows)
  show ?case
  proof (cases "step cfg f ch x st")
    case (Inl e)
    then show ?thesis by simp
  next
    case (Inr st1)
    with step_bad_timestamp [OF assms(2,3), of cfg st] have "x \<noteq> r" by auto
    with Cons.prems have "r \<in> set rows" by simp
    from Cons.IH [OF this, of st1] Inr show ?thesis by simp
  qed
qed

text \<open>
  Claim C1 says that a run skips a puzzle whose latest attempt has a malformed
  timestamp, goes on with the other puzzles and reports a count of skipped puzzles. The
  source has no handler around \<^verbatim>\<open>_local_date_of_iso\<close> and no such count: with the
  default constants and an empty table, a run over a row that does not parse and a row
  that does raises ValueError in either order and leaves the table empty, although the
  second row alone is seeded.
\<close>

theorem bad_timestamp_counterexample:
  "run default_config utc_fromiso None [bad_row, good_row] no_rows = (no_rows, Inl ValueError) \<and>
   run default_config utc_fromiso None [good_row, bad_row] no_rows = (no_rows, Inl ValueError) \<and>
   run default_config utc_fromiso None [good_row] no_rows =
     (no_rows(ascii ''bbbbb'' \<mapsto> seeded_entry), Inr (1, 0))"
  by (simp add: run_eval)

text \<open>
  Claim C1, amended. If the latest attempt of some puzzle that the run processes (one in
  scope of \<^verbatim>\<open>changed_pids\<close>) has a missing or malformed timestamp, the run as a whole
  raises: the transaction is rolled back, so the table is the one before the run, and no
  count is reported.
\<close>

theorem bad_timestamp_aborts_run:
  assumes "r \<in> set rows" and "in_scope ch (puzzle_id r)"
    and "local_date_of_iso f (last_attempt r) = Inl err"
  shows "\<exists>err'. run cfg f ch rows table = (table, Inl err')"
proof -
  from loop_bad_timestamp [OF assms] obtain err' where
    "loop cfg f ch rows \<lparr>srs = table, updated = 0, deleted = 0\<rparr> = Inl err'" by blast
  then show ?thesis by (simp add: run_def)
qed

theorem bad_timestamp_aborts_run_witness:
  "bad_row \<in> set [good_row, bad_row] \<and> in_scope None (puzzle_id bad_row) \<and>
   local_date_of_iso utc_fromiso (last_attempt bad_row) = Inl ValueError \<and>
   fst (run default_config utc_fromiso None [good_row, bad_row] one_row) = one_row \<and>
   isl (snd (run default_config utc_fromiso None [good_row, bad_row] one_row))"
proof -
  have m: "bad_row \<in> set [good_row, bad_row]" by simp
  have i: "in_scope None (puzzle_id bad_row)" by (simp add: in_scope_def)
  have p: "local_date_of_iso utc_fromiso (last_attempt bad_row) = Inl ValueError"
    by (simp add: bad_row_def local_date_of_iso_def replace_Z_def utc_fromiso_def)
  from bad_timestamp_aborts_run [OF m i p, of default_config one_row]
  obtain err' where
    "run default_config utc_fromiso None [good_row, bad_row] one_row = (one_row, Inl err')"
    by blast
  with m i p show ?thesis by simp
qed

subsection \<open>Incremental and full recomputation\<close>

lemma step_full_cases:
  assumes "step cfg f None r st = Inr st'"
  shows "\<exists>d a. local_date_of_iso f (last_attempt r) = Inr d \<and>
       decide cfg (srs st (puzzle_id r)) (norm_result (last_result r)) d (puzzle_id r) = Inr a \<and>
       apply_action (puzzle_id r) a st = Inr st'"
  using assms by (auto simp: step_def in_scope_def Let_def split: sum.splits)

lemma step_incremental:
  assumes full: "step cfg f None r stF = Inr stF'"
    and agree: "\<forall>p \<in> set S. srs stI p = srs stF p"
  shows "\<exists>stI'. step cfg f (Some S) r stI = Inr stI' \<and>
           (\<forall>p \<in> set S. srs stI' p = srs stF' p) \<and>
           (\<forall>p. p \<notin> set S \<longrightarrow> srs stI' p = srs stI p)"
proof -
  from step_full_cases [OF full] obtain d a where
    d: "local_date_of_iso f (last_attempt r) = Inr d"
    and a: "decide cfg (srs stF (puzzle_id r)) (norm_result (last_result r)) d (puzzle_id r) = Inr a"
    and stF': "apply_action (puzzle_id r) a stF = Inr stF'" by blast
  show ?thesis
  proof (cases "puzzle_id r \<in> set S")
    case True
    from apply_action_other_state [OF stF', of stI] obtain stI' where
      stI': "apply_action (puzzle_id r) a stI = Inr stI'" by blast
    from True agree have "srs stI (puzzle_id r) = srs stF (puzzle_id r)" by simp
    with d a True stI' have "step cfg f (Some S) r stI = Inr stI'"
      by (simp add: step_def in_scope_def Let_def)
    moreover have "\<forall>p \<in> set S. srs stI' p = srs stF' p"
      using agree by (auto simp: apply_action_srs [OF stI'] apply_action_srs [OF stF']
          split: action.splits)
    moreover have "\<forall>p. p \<notin> set S \<longrightarrow> srs stI' p = srs stI p"
      using True by (auto simp: apply_action_srs [OF stI'])
    ultimately show ?thesis by blast
  next
    case False
    then have "step cfg f (Some S) r stI = Inr stI"
      by (simp add: step_def in_scope_def Let_def)
    moreover have "\<forall>p \<in> set S. srs stI p = srs stF' p"
      using agree False by (auto simp: apply_action_srs [OF stF'])
    ultimately show ?thesis by simp
  qed
qed

lemma loop_incremental:
  "loop cfg f None rows stF = Inr stF' \<Longrightarrow> \<forall>p \<in> set S. srs stI p = srs stF p \<Longrightarrow>
   \<exists>stI'. loop cfg f (Some S) rows stI = Inr stI' \<and>
           (\<forall>p \<in> set S. srs stI' p = srs stF' p) \<and>
           (\<forall>p. p \<notin> set S \<longrightarrow> srs stI' p = srs stI p)"
proof (induction rows arbitrary: stF stI)
  case Nil
  then show ?case by simp
next
  case (Cons r rows)
  from Cons.prems(1) obtain stF1 where f1: "step cfg f None r stF = Inr stF1"
    and l: "loop cfg f None rows stF1 = Inr stF'"
    by (auto split: sum.splits)
  from step_incremental [OF f1 Cons.prems(2)] obtain stI1 where
    i1: "step cfg f (Some S) r stI = Inr stI1"
    and ag1: "\<forall>p \<in> set S. srs stI1 p = srs stF1 p"
    and out1: "\<forall>p. p \<notin> set S \<longrightarrow> srs stI1 p = srs stI p" by blast
  from Cons.IH [OF l ag1] obtain stI' where
    l': "loop cfg f (Some S) rows stI1 = Inr stI'"
    and ag: "\<forall>p \<in> set S. srs stI' p = srs stF' p"
    and out: "\<forall>p. p \<notin> set S \<longrightarrow> srs stI' p = srs stI1 p" by blast
  from i1 l' have "loop cfg f (Some S) (r # rows) stI = Inr stI'" by simp
  with ag out out1 show ?case by simp
qed

text \<open>
  Claim C7 says that for every set of identifiers and every state of the store the
  incremental run gives each puzzle of the set the row or the deletion that a full
  recompute gives it. A full recompute also parses the rows outside the set: with the
  default constants and an empty table, the run restricted to \<^verbatim>\<open>bbbbb\<close> seeds its
  row, while the full recompute raises on the row of \<^verbatim>\<open>aaaaa\<close> and leaves
  \<^verbatim>\<open>bbbbb\<close> without a row.
\<close>

theorem incremental_counterexample:
  "run default_config utc_fromiso (Some [ascii ''bbbbb'']) [bad_row, good_row] no_rows =
     (no_rows(ascii ''bbbbb'' \<mapsto> seeded_entry), Inr (1, 0)) \<and>
   run default_config utc_fromiso None [bad_row, good_row] no_rows = (no_rows, Inl ValueError) \<and>
   (no_rows(ascii ''bbbbb'' \<mapsto> seeded_entry)) (ascii ''bbbbb'') \<noteq> no_rows (ascii ''bbbbb'')"
  by (simp add: run_eval)

text \<open>
  Claim C7, amended. Whenever the full recompute of a store completes, the incremental
  run restricted to a list \<open>S\<close> of identifiers completes too, its table agrees with
  the table of the full recompute on every puzzle in \<open>S\<close> (the same row, or no row
  after the same deletion), and it leaves every puzzle outside \<open>S\<close> as it was.
\<close>

theorem incremental_matches_full:
  assumes "run cfg f None rows table = (full, Inr counts)"
  shows "\<exists>inc counts'. run cfg f (Some S) rows table = (inc, Inr counts') \<and>
           (\<forall>p \<in> set S. inc p = full p) \<and> (\<forall>p. p \<notin> set S \<longrightarrow> inc p = table p)"
proof -
  let ?st0 = "\<lparr>srs = table, updated = 0, deleted = 0\<rparr>"
  from assms obtain stF where lf: "loop cfg f None rows ?st0 = Inr stF" and full: "full = srs stF"
    by (auto simp: run_def split: sum.splits)
  from loop_incremental [OF lf, of S ?st0] obtain stI where
    li: "loop cfg f (Some S) rows ?st0 = Inr stI"
    and ag: "\<forall>p \<in> set S. srs stI p = srs stF p"
    and out: "\<forall>p. p \<notin> set S \<longrightarrow> srs stI p = srs ?st0 p" by auto
  from li have "run cfg f (Some S) rows table = (srs stI, Inr (updated stI, deleted stI))"
    by (simp add: run_def)
  with ag out full show ?thesis by simp
qed

theorem incremental_matches_full_witness:
  "run default_config utc_fromiso None [good_row, win_row] one_row =
     (no_rows(ascii ''ccccc'' \<mapsto> old_entry, ascii ''bbbbb'' \<mapsto> seeded_entry,
              ascii ''ccccc'' := None), Inr (1, 1)) \<and>
   isl (snd (run default_config utc_fromiso (Some [ascii ''ccccc'']) [good_row, win_row] one_row))
     = False \<and>
   fst (run default_config utc_fromiso (Some [ascii ''ccccc'']) [good_row, win_row] one_row)
     (ascii ''ccccc'') = None \<and>
   fst (run default_config utc_fromiso (Some [ascii ''ccccc'']) [good_row, win_row] one_row)
     (ascii ''bbbbb'') = one_row (ascii ''bbbbb'')"
proof -
  let ?t = "no_rows(ascii ''ccccc'' \<mapsto> old_entry, ascii ''bbbbb'' \<mapsto> seeded_entry,
                   ascii ''ccccc'' := None)"
  have r: "run default_config utc_fromiso None [good_row, win_row] one_row = (?t, Inr (1, 1))"
    by (simp add: run_eval)
  from incremental_matches_full [OF r, of "[ascii ''ccccc'']"] obtain inc counts' where
    i: "run default_config utc_fromiso (Some [ascii ''ccccc'']) [good_row, win_row] one_row
          = (inc, Inr counts')"
    and a: "\<forall>p \<in> set [ascii ''ccccc'']. inc p = ?t p"
    and o: "\<forall>p. p \<notin> set [ascii ''ccccc''] \<longrightarrow> inc p = one_row p" by blast
  from a have "inc (ascii ''ccccc'') = None" by simp
  moreover from o have "inc (ascii ''bbbbb'') = one_row (ascii ''bbbbb'')"
    by (simp add: ascii_def)
  ultimately show ?thesis using r i by simp
qed

subsection \<open>Applying the decision twice\<close>

text \<open>
  Claim C2 says that once the decision function has produced a row \<open>E\<close>, applying it
  again to \<open>E\<close> with the same latest attempt does nothing or produces \<open>E\<close> again.
  The function keeps no mark of the attempt it has applied: with \<^verbatim>\<open>TRACK_WINS\<close> set,
  a win on a row of streak 1 gives streak 2 and interval 4, and the same win applied to
  that row gives streak 3 and interval 7.
\<close>

theorem decide_twice_counterexample:
  "decide (default_config\<lparr>TRACK_WINS := True\<rparr>)
      (Some \<lparr>success_streak = Some 1, interval_days = 2, srs_last_result = ''win'',
             last_reviewed = 19700, due_date = Some 19702\<rparr>) ''win'' 19723 (ascii ''abcde'')
     = Inr (UPSERT \<lparr>success_streak = Some 2, interval_days = 4, srs_last_result = ''win'',
             last_reviewed = 19723, due_date = Some 19727\<rparr>) \<and>
   decide (default_config\<lparr>TRACK_WINS := True\<rparr>)
      (Some \<lparr>success_streak = Some 2, interval_days = 4, srs_last_result = ''win'',
             last_reviewed = 19723, due_date = Some 19727\<rparr>) ''win'' 19723 (ascii ''abcde'')
     = Inr (UPSERT \<lparr>success_streak = Some 3, interval_days = 7, srs_last_result = ''win'',
             last_reviewed = 19723, due_date = Some 19730\<rparr>)"
  by (simp add: run_eval)

text \<open>
  Claim C2, amended. If applying the decision function once yields an upserted row
  \<open>E\<close>, then applying it again with \<open>E\<close> as the existing row and the same latest
  attempt is never a no-op, and it yields a row identical to \<open>E\<close> exactly when the
  result is a loss and either the first application found a row and \<^verbatim>\<open>RESET_ON_FAIL\<close>
  is set or that row's streak was at most 1, or the first application found no row and
  the seed interval equals the first entry of the loss cadence.
\<close>

theorem decide_twice:
  assumes first: "decide cfg existing result d pid = Inr (UPSERT E)"
  shows "decide cfg (Some E) result d pid \<noteq> Inr NOOP \<and>
    (decide cfg (Some E) result d pid = Inr (UPSERT E) \<longleftrightarrow>
       result \<noteq> ''win'' \<and>
       (case existing of
          Some e \<Rightarrow> RESET_ON_FAIL cfg \<or> stored_streak e \<le> 1
        | None \<Rightarrow> LOSS_CADENCE cfg \<noteq> [] \<and> seed_offset_days cfg pid = hd (LOSS_CADENCE cfg)))"
proof (cases "result = ''win''")
  case True
  from decide_win_streak [OF first [unfolded True]] have tw: "TRACK_WINS cfg"
    and s: "success_streak E = Some (case existing of None \<Rightarrow> 1 | Some e \<Rightarrow> stored_streak e + 1)"
    by simp_all
  have "decide cfg (Some E) ''win'' d pid \<noteq> Inr NOOP"
    using tw by (auto simp: decide_def calc_update_def Let_def split: sum.splits)
  moreover have "decide cfg (Some E) ''win'' d pid \<noteq> Inr (UPSERT E)"
  proof
    assume "decide cfg (Some E) ''win'' d pid = Inr (UPSERT E)"
    from decide_win_streak [OF this] have "success_streak E = Some (stored_streak E + 1)" by simp
    then show False by (cases "success_streak E") (simp_all add: stored_streak_def)
  qed
  ultimately show ?thesis using True by simp
next
  case False
  show ?thesis
  proof (cases existing)
    case None
    from first False None
    have E: "E = \<lparr>success_streak = Some 0, interval_days = seed_offset_days cfg pid,
                  srs_last_result = result, last_reviewed = d,
                  due_date = sqlite_date d (seed_offset_days cfg pid)\<rparr>"
      by (simp add: decide_loss_new)
    have ss: "stored_streak E = 0" by (simp add: E stored_streak_def)
    have second: "decide cfg (Some E) result d pid =
       (case next_interval_days cfg 1 False of
          Inl err \<Rightarrow> Inl err
        | Inr i \<Rightarrow> Inr (UPSERT \<lparr>success_streak = Some 0, interval_days = i,
                        srs_last_result = result, last_reviewed = d,
                        due_date = sqlite_date d i\<rparr>))"
      using False by (simp add: decide_loss_existing ss split: sum.splits)
    show ?thesis
    proof (cases "LOSS_CADENCE cfg = []")
      case True
      then have "next_interval_days cfg 1 False = Inl IndexError"
        by (simp add: next_interval_days_def getitem_def)
      with second have "decide cfg (Some E) result d pid = Inl IndexError" by simp
      then show ?thesis using None True by simp
    next
      case ne: False
      from next_interval_days_loss_1 [OF ne] second
      have second': "decide cfg (Some E) result d pid =
          Inr (UPSERT \<lparr>success_streak = Some 0, interval_days = hd (LOSS_CADENCE cfg),
                 srs_last_result = result, last_reviewed = d,
                 due_date = sqlite_date d (hd (LOSS_CADENCE cfg))\<rparr>)" by simp
      show ?thesis unfolding second' using False None ne by (auto simp: E)
    qed
  next
    case (Some e)
    define ns where "ns = (if RESET_ON_FAIL cfg then 0 else max (stored_streak e - 1) 0)"
    from first False Some obtain i where i: "next_interval_days cfg (max ns 1) False = Inr i"
      and E: "E = \<lparr>success_streak = Some ns, interval_days = i,
                    srs_last_result = result, last_reviewed = d, due_date = sqlite_date d i\<rparr>"
      by (auto simp: decide_loss_existing Let_def ns_def split: sum.splits)
    have ss: "stored_streak E = ns" by (simp add: E stored_streak_def)
    define ns' where "ns' = (if RESET_ON_FAIL cfg then 0 else max (ns - 1) 0)"
    from next_interval_days_Inr_nonempty [OF i] have ne: "LOSS_CADENCE cfg \<noteq> []" .
    from next_interval_days_nonempty [of "LOSS_CADENCE cfg" False cfg "max ns' 1"] ne
    obtain i' where i': "next_interval_days cfg (max ns' 1) False = Inr i'" by simp
    have second: "decide cfg (Some E) result d pid =
        Inr (UPSERT \<lparr>success_streak = Some ns', interval_days = i',
                        srs_last_result = result, last_reviewed = d,
                        due_date = sqlite_date d i'\<rparr>)"
      by (rule decide_loss_existing_Inr [OF False _ i']) (simp add: ns'_def ss)
    have same: "ns' = ns \<longleftrightarrow> RESET_ON_FAIL cfg \<or> stored_streak e \<le> 1"
      by (auto simp: ns'_def ns_def)
    have "i' = i" if "ns' = ns" using that i i' by simp
    then show ?thesis unfolding second using False Some same by (auto simp: E)
  qed
qed

theorem decide_twice_witness:
  "decide default_config (Some old_entry) ''loss'' 19723 (ascii ''ccccc'') =
     Inr (UPSERT seeded_entry) \<and>
   decide default_config (Some seeded_entry) ''loss'' 19723 (ascii ''ccccc'') =
     Inr (UPSERT seeded_entry) \<and>
   decide default_config (Some seeded_entry) ''loss'' 19723 (ascii ''ccccc'') \<noteq> Inr NOOP"
proof -
  have h: "decide default_config (Some old_entry) ''loss'' 19723 (ascii ''ccccc'') =
      Inr (UPSERT seeded_entry)"
    by (simp add: run_eval)
  have r: "RESET_ON_FAIL default_config" by (simp add: default_config_def)
  from decide_twice [OF h] r h show ?thesis by simp
qed

end
